theory Spec2Isabelle
  imports Complex_Main "HOL-Library.Word"
begin

section \<open>QuantPDE: the Axis class and the Bermudan put driver\<close>

text \<open>
  The development embeds \<^verbatim>\<open>src/Axis.hpp\<close> and the option handling and event
  registration of \<^verbatim>\<open>test/bermudan_put.cpp\<close>.

  The types \<^verbatim>\<open>Real\<close>, \<^verbatim>\<open>Index\<close> and \<^verbatim>\<open>Vector\<close> are declared outside the two files.
  \<^item> \<^verbatim>\<open>Real\<close> is a type parameter \<open>'a\<close>. Definitions ask only for the operations the
    code applies to it. The specification calls the ticks reals; a theorem that needs
    the laws of a linearly ordered field says so in its sort constraint. Rounding of a
    machine floating-point type is not part of the model.
  \<^item> \<^verbatim>\<open>Index\<close> is \<open>nat\<close>; the one place where the code computes below zero
    (\<^verbatim>\<open>length * 2 - 1\<close> at length 0) is written out.
  \<^item> \<^verbatim>\<open>Vector\<close> is a list of reals.
\<close>

subsection \<open>Failures\<close>

datatype fault =
    AssertionFailed       \<comment> \<open>an \<^verbatim>\<open>assert\<close> of a debug build does not hold\<close>
  | BadAlloc              \<comment> \<open>\<^verbatim>\<open>new[]\<close> throws\<close>
  | UndefinedBehaviour    \<comment> \<open>access outside a live array, or read of an unwritten cell\<close>

definition and_then :: "fault + 'b \<Rightarrow> ('b \<Rightarrow> fault + 'c) \<Rightarrow> fault + 'c" where
  "and_then m f = (case m of Inl e \<Rightarrow> Inl e | Inr x \<Rightarrow> f x)"

subsection \<open>The free store\<close>

text \<open>
  \<^verbatim>\<open>Real *n\<close> points to an array obtained from \<^verbatim>\<open>new Real[length]\<close>. The store is the
  list of all arrays ever allocated; an address is a position in it, so a new array never
  shares its address with an earlier one. The cells of a new array are indeterminate
  until written.
\<close>

datatype 'a cell = Indeterminate | Value 'a

datatype 'a block = Freed | Live "'a cell list"

type_synonym 'a store = "'a block list"

datatype ptr = Null | Addr nat

definition new_array :: "'a store \<Rightarrow> nat \<Rightarrow> ptr \<times> 'a store" where
  "new_array s len = (Addr (length s), s @ [Live (replicate len Indeterminate)])"

definition block_at :: "'a store \<Rightarrow> ptr \<Rightarrow> fault + (nat \<times> 'a cell list)" where
  "block_at s p =
     (case p of
        Null \<Rightarrow> Inl UndefinedBehaviour
      | Addr a \<Rightarrow>
          if a < length s
          then (case s ! a of
                  Freed \<Rightarrow> Inl UndefinedBehaviour
                | Live cs \<Rightarrow> Inr (a, cs))
          else Inl UndefinedBehaviour)"

text \<open>\<^verbatim>\<open>p[i]\<close> as an rvalue.\<close>

definition peek :: "'a store \<Rightarrow> ptr \<Rightarrow> nat \<Rightarrow> fault + 'a" where
  "peek s p i =
     and_then (block_at s p) (\<lambda>(a, cs).
       if i < length cs
       then (case cs ! i of
               Indeterminate \<Rightarrow> Inl UndefinedBehaviour
             | Value v \<Rightarrow> Inr v)
       else Inl UndefinedBehaviour)"

text \<open>\<^verbatim>\<open>p[i] = v\<close>.\<close>

definition poke :: "'a store \<Rightarrow> ptr \<Rightarrow> nat \<Rightarrow> 'a \<Rightarrow> fault + 'a store" where
  "poke s p i v =
     and_then (block_at s p) (\<lambda>(a, cs).
       if i < length cs
       then Inr (s[a := Live (cs[i := Value v])])
       else Inl UndefinedBehaviour)"

text \<open>\<^verbatim>\<open>delete [] p\<close>; deleting the null pointer does nothing.\<close>

definition delete_array :: "'a store \<Rightarrow> ptr \<Rightarrow> fault + 'a store" where
  "delete_array s p =
     (case p of
        Null \<Rightarrow> Inr s
      | Addr _ \<Rightarrow> and_then (block_at s p) (\<lambda>(a, cs). Inr (s[a := Freed])))"

text \<open>
  \<^verbatim>\<open>std::memcpy(dst, src, sizeof(Real) * k)\<close>, counted in elements. The source is given
  by its cells, so that it may lie in the store or in a \<^verbatim>\<open>Vector\<close>.
\<close>

definition memcpy :: "'a store \<Rightarrow> ptr \<Rightarrow> 'a cell list \<Rightarrow> nat \<Rightarrow> fault + 'a store" where
  "memcpy s dst src k =
     and_then (block_at s dst) (\<lambda>(a, cs).
       if k \<le> length cs \<and> k \<le> length src
       then Inr (s[a := Live (take k src @ drop k cs)])
       else Inl UndefinedBehaviour)"

subsection \<open>class Axis\<close>

text \<open>The members \<^verbatim>\<open>Real *n\<close> and \<^verbatim>\<open>Index length\<close>.\<close>

record Axis =
  axis_n :: ptr
  axis_length :: nat

text \<open>The private constructor \<^verbatim>\<open>Axis(Index length)\<close>.\<close>

definition Axis_sized :: "'a store \<Rightarrow> nat \<Rightarrow> Axis \<times> 'a store" where
  "Axis_sized s len =
     (let (p, s') = new_array s len
      in (\<lparr>axis_n = p, axis_length = len\<rparr>, s'))"

text \<open>\<^verbatim>\<open>size()\<close> and the const \<^verbatim>\<open>operator()(Index i)\<close>, read as a value.\<close>

definition size_of :: "Axis \<Rightarrow> nat" where
  "size_of this = axis_length this"

definition tick :: "'a store \<Rightarrow> Axis \<Rightarrow> nat \<Rightarrow> fault + 'a" where
  "tick s this i = peek s (axis_n this) i"

text \<open>Assignment through the non-const \<^verbatim>\<open>operator()(Index i)\<close>: \<^verbatim>\<open>a(i) = v\<close>.\<close>

definition set_tick :: "'a store \<Rightarrow> Axis \<Rightarrow> nat \<Rightarrow> 'a \<Rightarrow> fault + 'a store" where
  "set_tick s this i v = poke s (axis_n this) i v"

text \<open>
  \<^verbatim>\<open>refine()\<close>. At length 0 the size \<^verbatim>\<open>length * 2 - 1\<close> is not a size an array can
  have, and \<^verbatim>\<open>new[]\<close> throws. The loop carries \<^verbatim>\<open>i\<close> and \<^verbatim>\<open>j\<close>. The local
  \<^verbatim>\<open>refined\<close> is returned by value: its buffer goes to the caller.
\<close>

function refine_loop ::
  "'a::{inverse,numeral} store \<Rightarrow> Axis \<Rightarrow> Axis \<Rightarrow> nat \<Rightarrow> nat \<Rightarrow> fault + 'a store" where
  "refine_loop s this refined i j =
     (if i < axis_length this
      then
        and_then (peek s (axis_n this) (i - 1)) (\<lambda>x.
        and_then (peek s (axis_n this) i) (\<lambda>y.
        and_then (set_tick s refined j ((x + y) / 2)) (\<lambda>s1.
        and_then (peek s1 (axis_n this) i) (\<lambda>z.
        and_then (set_tick s1 refined (j + 1) z) (\<lambda>s2.
        refine_loop s2 this refined (i + 1) (j + 2))))))
      else Inr s)"
  by pat_completeness auto
termination
  by (relation "measure (\<lambda>(s, this, refined, i, j). axis_length this - i)") auto

definition refine :: "'a::{inverse,numeral} store \<Rightarrow> Axis \<Rightarrow> fault + (Axis \<times> 'a store)" where
  "refine s this =
     (if axis_length this = 0 then Inl BadAlloc
      else
        let (refined, s0) = Axis_sized s (axis_length this * 2 - 1)
        in and_then (peek s0 (axis_n this) 0) (\<lambda>x.
           and_then (set_tick s0 refined 0 x) (\<lambda>s1.
           and_then (refine_loop s1 this refined 1 1) (\<lambda>s2.
           Inr (refined, s2)))))"

text \<open>
  \<^verbatim>\<open>assert(c)\<close>: with \<^verbatim>\<open>NDEBUG\<close> defined the macro expands to nothing.
\<close>

definition c_assert :: "bool \<Rightarrow> bool \<Rightarrow> fault + unit" where
  "c_assert NDEBUG c = (if NDEBUG \<or> c then Inr () else Inl AssertionFailed)"

text \<open>
  The constructor from an initializer list. \<^verbatim>\<open>init_loop\<close> is the range-for that
  stores the ticks through \<^verbatim>\<open>*(p++)\<close>, with \<^verbatim>\<open>p = n + i\<close>; \<^verbatim>\<open>check_loop\<close> is the
  loop under \<^verbatim>\<open>#ifndef NDEBUG\<close>, again with \<^verbatim>\<open>p = n + i\<close>, so that
  \<^verbatim>\<open>p < n + length - 1\<close> reads \<open>i < length - 1\<close> (the loop is compiled only where the
  assertion \<^verbatim>\<open>length > 0\<close> before it is).
\<close>

fun init_loop :: "'a store \<Rightarrow> ptr \<Rightarrow> nat \<Rightarrow> 'a list \<Rightarrow> fault + 'a store" where
  "init_loop s n i [] = Inr s"
| "init_loop s n i (t # list) =
     and_then (poke s n i t) (\<lambda>s'. init_loop s' n (i + 1) list)"

function check_loop :: "'a::ord store \<Rightarrow> ptr \<Rightarrow> nat \<Rightarrow> nat \<Rightarrow> fault + unit" where
  "check_loop s n len i =
     (if i < len - 1
      then
        and_then (peek s n i) (\<lambda>x.
        and_then (peek s n (i + 1)) (\<lambda>y.
        and_then (c_assert False (x < y)) (\<lambda>_.
        check_loop s n len (i + 1))))
      else Inr ())"
  by pat_completeness auto
termination
  by (relation "measure (\<lambda>(s, n, len, i). len - 1 - i)") auto

definition Axis_init :: "bool \<Rightarrow> 'a::ord store \<Rightarrow> 'a list \<Rightarrow> fault + (Axis \<times> 'a store)" where
  "Axis_init NDEBUG s list =
     (let len = length list
      in and_then (c_assert NDEBUG (len > 0)) (\<lambda>_.
           let (n, s0) = new_array s len
           in and_then (init_loop s0 n 0 list) (\<lambda>s1.
              and_then (if NDEBUG then Inr () else check_loop s1 n len 0) (\<lambda>_.
              Inr (\<lparr>axis_n = n, axis_length = len\<rparr>, s1)))))"

text \<open>The constructor from a \<^verbatim>\<open>Vector\<close>: \<^verbatim>\<open>memcpy\<close> from \<^verbatim>\<open>vector.data()\<close>.\<close>

definition Axis_of_vector :: "'a store \<Rightarrow> 'a list \<Rightarrow> fault + (Axis \<times> 'a store)" where
  "Axis_of_vector s vector =
     (let len = length vector;
          (n, s0) = new_array s len
      in and_then (memcpy s0 n (map Value vector) len) (\<lambda>s1.
         Inr (\<lparr>axis_n = n, axis_length = len\<rparr>, s1)))"

text \<open>The copy constructor.\<close>

definition Axis_copy :: "'a store \<Rightarrow> Axis \<Rightarrow> fault + (Axis \<times> 'a store)" where
  "Axis_copy s that =
     (let len = axis_length that;
          (n, s0) = new_array s len
      in and_then (block_at s0 (axis_n that)) (\<lambda>(_, src).
         and_then (memcpy s0 n src len) (\<lambda>s1.
         Inr (\<lparr>axis_n = n, axis_length = len\<rparr>, s1))))"

text \<open>The move constructor: the new object and what is left of \<^verbatim>\<open>that\<close>.\<close>

definition Axis_move :: "Axis \<Rightarrow> Axis \<times> Axis" where
  "Axis_move that =
     (\<lparr>axis_n = axis_n that, axis_length = axis_length that\<rparr>, that\<lparr>axis_n := Null\<rparr>)"

text \<open>The destructor.\<close>

definition Axis_destroy :: "'a store \<Rightarrow> Axis \<Rightarrow> fault + 'a store" where
  "Axis_destroy s this = delete_array s (axis_n this)"

text \<open>
  \<^verbatim>\<open>operator=(Axis that)\<close> called on an lvalue \<^verbatim>\<open>arg\<close>: the parameter is
  copy-constructed from the argument, the length is taken, the pointers are swapped, and
  the parameter is destroyed on return, which frees the receiver's old array.
\<close>

definition Axis_assign :: "'a store \<Rightarrow> Axis \<Rightarrow> Axis \<Rightarrow> fault + (Axis \<times> 'a store)" where
  "Axis_assign s this arg =
     and_then (Axis_copy s arg) (\<lambda>(that, s1).
       let this1 = this\<lparr>axis_length := axis_length that\<rparr>;
           this2 = this1\<lparr>axis_n := axis_n that\<rparr>;
           that2 = that\<lparr>axis_n := axis_n this1\<rparr>
       in and_then (Axis_destroy s1 that2) (\<lambda>s2.
          Inr (this2, s2)))"



subsection \<open>What an Axis holds\<close>

text \<open>
  The state every public constructor and \<^verbatim>\<open>refine()\<close> leave an Axis in: \<^verbatim>\<open>n\<close> points
  to a live array whose cells are the ticks \<open>xs\<close>, all written, and \<^verbatim>\<open>length\<close> is
  their number.
\<close>

definition axis_holds :: "'a store \<Rightarrow> Axis \<Rightarrow> 'a list \<Rightarrow> bool" where
  "axis_holds s a xs =
     (case block_at s (axis_n a) of
        Inl _ \<Rightarrow> False
      | Inr (p, cs) \<Rightarrow> cs = map Value xs \<and> axis_length a = length xs)"

text \<open>The invariant of the class: each tick is below the next one.\<close>

fun strictly_increasing :: "'a::ord list \<Rightarrow> bool" where
  "strictly_increasing [] = True"
| "strictly_increasing [x] = True"
| "strictly_increasing (x # y # zs) = (x < y \<and> strictly_increasing (y # zs))"

text \<open>The ticks of the refined axis, as a function of the ticks of the original.\<close>

fun refined_ticks :: "'a::{inverse,numeral} list \<Rightarrow> 'a list" where
  "refined_ticks [] = []"
| "refined_ticks [x] = [x]"
| "refined_ticks (x # y # zs) = x # (x + y) / 2 # refined_ticks (y # zs)"


subsection \<open>bermudan\_put.cpp: options and exercise events\<close>

text \<open>
  \<^verbatim>\<open>int\<close> and \<^verbatim>\<open>unsigned\<close> are 32-bit words: an \<^verbatim>\<open>int\<close> is read as two's complement
  (\<open>sint\<close>, \<open><s\<close>, \<open>\<le>s\<close>), an \<^verbatim>\<open>unsigned\<close> as unsigned (\<open>unat\<close>, \<open><\<close>). Converting
  an \<^verbatim>\<open>int\<close> to \<^verbatim>\<open>unsigned\<close> keeps the word.
\<close>

type_synonym c_int = "32 word"
type_synonym c_unsigned = "32 word"

text \<open>
  One round of the \<^verbatim>\<open>getopt\<close> loop: the option character that \<^verbatim>\<open>getopt\<close> returned,
  with \<^verbatim>\<open>optarg\<close> already converted by the \<^verbatim>\<open>atoi\<close> or \<^verbatim>\<open>atof\<close> call of its case.
  \<open>Opt_unknown\<close> is the return value \<^verbatim>\<open>'?'\<close> (or \<^verbatim>\<open>':'\<close>) for an option that is
  not in the option string or lacks its argument.
\<close>

datatype 'a opt =
    Opt_d 'a
  | Opt_e c_int
  | Opt_h
  | Opt_K 'a
  | Opt_N c_int
  | Opt_r 'a
  | Opt_R c_int
  | Opt_T 'a
  | Opt_v 'a
  | Opt_unknown

text \<open>The locals \<^verbatim>\<open>K, T, r, v, q, R, e, N\<close> of \<^verbatim>\<open>main\<close> and their initial values.\<close>

record 'a locals =
  var_K :: 'a
  var_T :: 'a
  var_r :: 'a
  var_v :: 'a
  var_q :: 'a
  var_R :: c_int
  var_e :: c_int
  var_N :: c_int

definition initial :: "'a::field_char_0 locals" where
  "initial = \<lparr>var_K = 100, var_T = 1, var_r = 0.04, var_v = 0.2, var_q = 0,
              var_R = 0, var_e = 10, var_N = 25\<rparr>"

definition endl :: string where
  "endl = [CHR 0x0A]"

text \<open>What \<^verbatim>\<open>help()\<close> writes to \<^verbatim>\<open>cerr\<close>.\<close>

definition help_text :: string where
  "help_text = concat [
     ''unequal_borrowing_lending_rates [OPTIONS]'', endl, endl,
     ''Prices a long/short position straddle under the Black-Scholes model assuming'', endl,
     ''unequal borrowing/lending rates.'', endl,
     endl,
     ''-d REAL'', endl,
     endl,
     ''    sets the dividend rate (default is 0.)'', endl,
     endl,
     ''-e NONNEGATIVE_INTEGER'', endl,
     endl,
     ''    sets the number of premature exercises, spread evenly throughout the'', endl,
     ''    interval (default is 10)'', endl,
     endl,
     ''-K REAL'', endl,
     endl,
     ''    sets the strike price (default is 100.)'', endl,
     endl,
     ''-N POSITIVE_INTEGER'', endl,
     endl,
     ''    sets the number of steps to take in time (default is 100)'', endl,
     endl,
     ''-r REAL'', endl,
     endl,
     ''    sets the interest rate (default is 0.04)'', endl,
     endl,
     ''-R NONNEGATIVE_INTEGER'', endl,
     endl,
     ''    controls the coarseness of the grid, with 0 being coarsest (default is 0)'', endl,
     endl,
     ''-T POSITIVE_REAL'', endl,
     endl,
     ''    sets the expiry time (default is 1.)'', endl,
     endl,
     ''-v REAL'', endl,
     endl,
     ''    sets the volatility (default is 0.2)'', endl, endl]"

text \<open>
  The \<^verbatim>\<open>while\<close> loop over \<^verbatim>\<open>getopt\<close>. \<open>Inl (status, err)\<close> is a \<^verbatim>\<open>return status\<close>
  from inside the loop after \<open>err\<close> was written to \<^verbatim>\<open>cerr\<close>; \<open>Inr\<close> is the loop
  running to its end.
\<close>

fun getopt_loop :: "'a::linordered_field locals \<Rightarrow> 'a opt list \<Rightarrow> (int \<times> string) + 'a locals" where
  "getopt_loop l [] = Inr l"
| "getopt_loop l (Opt_d x # rest) = getopt_loop (l\<lparr>var_q := x\<rparr>) rest"
| "getopt_loop l (Opt_e x # rest) =
     (if x <s 0
      then Inl (1, ''error: the number of premature exercises must be nonnegative'' @ endl)
      else getopt_loop (l\<lparr>var_e := x\<rparr>) rest)"
| "getopt_loop l (Opt_h # rest) = Inl (0, help_text)"
| "getopt_loop l (Opt_K x # rest) = getopt_loop (l\<lparr>var_K := x\<rparr>) rest"
| "getopt_loop l (Opt_N x # rest) =
     (if x \<le>s 0
      then Inl (1, ''error: the number of steps must be positive'' @ endl)
      else getopt_loop (l\<lparr>var_N := x\<rparr>) rest)"
| "getopt_loop l (Opt_r x # rest) = getopt_loop (l\<lparr>var_r := x\<rparr>) rest"
| "getopt_loop l (Opt_R x # rest) =
     (if x <s 0
      then Inl (1, ''error: the maximum level of refinement must be nonnegative'' @ endl)
      else getopt_loop (l\<lparr>var_R := x\<rparr>) rest)"
| "getopt_loop l (Opt_T x # rest) =
     (if x \<le> 0
      then Inl (1, ''error: expiry time must be positive'' @ endl)
      else getopt_loop (l\<lparr>var_T := x\<rparr>) rest)"
| "getopt_loop l (Opt_v x # rest) = getopt_loop (l\<lparr>var_v := x\<rparr>) rest"
| "getopt_loop l (Opt_unknown # rest) = Inl (1, endl @ help_text)"

text \<open>
  The loop that registers the exercise events, \<^verbatim>\<open>for(unsigned m = 0; m < e; m++)\<close>.
  The comparison converts \<^verbatim>\<open>e\<close> to \<^verbatim>\<open>unsigned\<close>; \<^verbatim>\<open>T / e * m\<close> converts \<^verbatim>\<open>e\<close> and
  \<^verbatim>\<open>m\<close> to \<^verbatim>\<open>Real\<close>. The result lists the times passed to \<^verbatim>\<open>stepper.add\<close>, in the
  order of the calls.
\<close>

function events_loop :: "'a::linordered_field locals \<Rightarrow> c_unsigned \<Rightarrow> 'a list \<Rightarrow> 'a list" where
  "events_loop l m added =
     (if m < var_e l
      then events_loop l (m + 1)
             (added @ [var_T l / of_int (sint (var_e l)) * of_nat (unat m)])
      else added)"
  by pat_completeness auto
termination
proof (relation "measure (\<lambda>(l, m, added). unat (var_e l) - unat m)")
  show "wf (measure (\<lambda>(l, m, added). unat (var_e l) - unat m))"
    by simp
next
  fix l :: "'a locals" and m :: c_unsigned and added :: "'a list"
  assume less: "m < var_e l"
  then have lt: "unat m < unat (var_e l)"
    by (simp add: word_less_nat_alt)
  have "unat (var_e l) < 2 ^ LENGTH(32)"
    by (rule unsigned_less)
  with lt have "unat m + unat (1 :: c_unsigned) < 2 ^ LENGTH(32)"
    by simp
  then have "unat (m + 1) = unat m + unat (1 :: c_unsigned)"
    by (simp only: unat_add_lem)
  moreover note lt
  ultimately show "((l, m + 1, added @ [var_T l / of_int (sint (var_e l)) * of_nat (unat m)]),
                    (l, m, added))
                   \<in> measure (\<lambda>(l, m, added). unat (var_e l) - unat m)"
    by simp
qed

text \<open>
  \<^verbatim>\<open>main\<close>, as far as the two files decide it: either a return from the option loop,
  or the rest of the program run with the final values of the locals and the events
  registered at the listed times.
\<close>

datatype 'a outcome =
    Exit int string
  | Run "'a locals" "'a list"

definition main :: "'a::linordered_field opt list \<Rightarrow> 'a outcome" where
  "main opts =
     (case getopt_loop initial opts of
        Inl (status, err) \<Rightarrow> Exit status err
      | Inr l \<Rightarrow> Run l (events_loop l 0 []))"

text \<open>An option that lets the option loop go on to the next one.\<close>

fun accepted :: "'a::linordered_field opt \<Rightarrow> bool" where
  "accepted (Opt_e x) = (\<not> x <s 0)"
| "accepted Opt_h = False"
| "accepted (Opt_N x) = (\<not> x \<le>s 0)"
| "accepted (Opt_R x) = (\<not> x <s 0)"
| "accepted (Opt_T x) = (\<not> x \<le> 0)"
| "accepted Opt_unknown = False"
| "accepted _ = True"

section \<open>Properties\<close>


subsection \<open>Sequencing\<close>

lemma and_then_Inr [simp]: "and_then (Inr x) f = f x"
  by (simp add: and_then_def)

lemma and_then_Inl [simp]: "and_then (Inl e) f = Inl e"
  by (simp add: and_then_def)

declare refine_loop.simps [simp del]
declare check_loop.simps [simp del]
declare events_loop.simps [simp del]

subsection \<open>Reading and writing live arrays\<close>

lemma block_at_live:
  "p < length s \<Longrightarrow> s ! p = Live cs \<Longrightarrow> block_at s (Addr p) = Inr (p, cs)"
  by (simp add: block_at_def)

lemma block_at_InrD:
  "block_at s q = Inr (p, cs) \<Longrightarrow> q = Addr p \<and> p < length s \<and> s ! p = Live cs"
  by (auto simp: block_at_def split: ptr.splits if_splits block.splits)

lemma peek_live:
  "p < length s \<Longrightarrow> s ! p = Live (map Value xs) \<Longrightarrow> i < length xs \<Longrightarrow>
   peek s (Addr p) i = Inr (xs ! i)"
  by (simp add: peek_def block_at_live)

lemma poke_live:
  "p < length s \<Longrightarrow> s ! p = Live cs \<Longrightarrow> i < length cs \<Longrightarrow>
   poke s (Addr p) i v = Inr (s[p := Live (cs[i := Value v])])"
  by (simp add: poke_def block_at_live)

lemma poke_last:
  "i < length cs \<Longrightarrow>
   poke (s @ [Live cs]) (Addr (length s)) i v = Inr (s @ [Live (cs[i := Value v])])"
  by (simp add: poke_live)

lemma memcpy_last:
  "k \<le> length cs \<Longrightarrow> k \<le> length src \<Longrightarrow>
   memcpy (s @ [Live cs]) (Addr (length s)) src k = Inr (s @ [Live (take k src @ drop k cs)])"
  by (simp add: memcpy_def block_at_live)

subsection \<open>The Axis invariant\<close>

lemma axis_holdsD:
  assumes "axis_holds s a xs"
  obtains p where "axis_n a = Addr p" "p < length s" "s ! p = Live (map Value xs)"
    "axis_length a = length xs"
  using assms
  by (auto simp: axis_holds_def split: sum.splits dest!: block_at_InrD)

lemma axis_holdsI:
  "axis_n a = Addr p \<Longrightarrow> p < length s \<Longrightarrow> s ! p = Live (map Value xs) \<Longrightarrow>
   axis_length a = length xs \<Longrightarrow> axis_holds s a xs"
  by (simp add: axis_holds_def block_at_live)

lemma axis_holds_size: "axis_holds s a xs \<Longrightarrow> size_of a = length xs"
  by (erule axis_holdsD) (simp add: size_of_def)

lemma axis_holds_tick: "axis_holds s a xs \<Longrightarrow> i < length xs \<Longrightarrow> tick s a i = Inr (xs ! i)"
  by (erule axis_holdsD) (simp add: tick_def peek_live)

lemma axis_holds_append:
  assumes "axis_holds s a xs"
  shows "axis_holds (s @ t) a xs"
proof -
  from assms obtain p where "axis_n a = Addr p" "p < length s" "s ! p = Live (map Value xs)"
    "axis_length a = length xs"
    by (rule axis_holdsD)
  then show ?thesis
    by (intro axis_holdsI [where p = p]) (simp_all add: nth_append)
qed

lemma axis_holds_update_other:
  assumes "axis_holds s a xs" "axis_n a \<noteq> Addr q"
  shows "axis_holds (s[q := B]) a xs"
proof -
  from assms(1) obtain p where "axis_n a = Addr p" "p < length s"
    "s ! p = Live (map Value xs)" "axis_length a = length xs"
    by (rule axis_holdsD)
  with assms(2) show ?thesis
    by (intro axis_holdsI [where p = p]) simp_all
qed

lemma axis_holds_new:
  "axis_holds (s @ [Live (map Value xs)]) \<lparr>axis_n = Addr (length s), axis_length = length xs\<rparr> xs"
  by (rule axis_holdsI [where p = "length s"]) simp_all

lemma set_tick_holds:
  assumes "axis_holds s b ys" "i < length ys"
  shows "\<exists>s'. set_tick s b i v = Inr s' \<and> axis_holds s' b (ys[i := v]) \<and>
              (\<forall>a xs. axis_holds s a xs \<longrightarrow> axis_n a \<noteq> axis_n b \<longrightarrow> axis_holds s' a xs)"
proof -
  from assms(1) obtain q where q: "axis_n b = Addr q" "q < length s"
    "s ! q = Live (map Value ys)" "axis_length b = length ys"
    by (rule axis_holdsD)
  let ?s' = "s[q := Live ((map Value ys)[i := Value v])]"
  have "set_tick s b i v = Inr ?s'"
    using q assms(2) by (simp add: set_tick_def poke_live)
  moreover have "axis_holds ?s' b (ys[i := v])"
    using q by (intro axis_holdsI [where p = q]) (simp_all add: map_update)
  moreover have "\<forall>a xs. axis_holds s a xs \<longrightarrow> axis_n a \<noteq> axis_n b \<longrightarrow> axis_holds ?s' a xs"
    using q by (simp add: axis_holds_update_other)
  ultimately show ?thesis by blast
qed

subsection \<open>The refined ticks\<close>

lemma refined_ticks_Cons: "refined_ticks (x # xs) = x # tl (refined_ticks (x # xs))"
  by (cases xs) simp_all

lemma refined_ticks_step:
  assumes "Suc k < length xs"
  shows "tl (refined_ticks (drop k xs)) =
     (xs ! k + xs ! Suc k) / 2 # xs ! Suc k # tl (refined_ticks (drop (Suc k) xs))"
proof -
  from assms have "drop k xs = xs ! k # drop (Suc k) xs"
    by (simp add: Cons_nth_drop_Suc)
  moreover from assms have "drop (Suc k) xs = xs ! Suc k # drop (Suc (Suc k)) xs"
    by (simp add: Cons_nth_drop_Suc)
  ultimately show ?thesis
    using refined_ticks_Cons [of "xs ! Suc k"] by simp
qed

lemma refined_ticks_last:
  assumes "length xs = Suc k"
  shows "tl (refined_ticks (drop k xs)) = []"
proof -
  from assms have "drop k xs = [xs ! k]"
    by (metis Cons_nth_drop_Suc drop_all lessI order_refl)
  then show ?thesis by simp
qed

lemma length_refined_ticks: "length (refined_ticks xs) = 2 * length xs - 1"
  by (induction xs rule: refined_ticks.induct) simp_all

lemma refined_ticks_even: "k < length xs \<Longrightarrow> refined_ticks xs ! (2 * k) = xs ! k"
proof (induction xs arbitrary: k rule: refined_ticks.induct)
  case (3 x y zs)
  then show ?case by (cases k) simp_all
qed simp_all

lemma refined_ticks_odd:
  "Suc k < length xs \<Longrightarrow> refined_ticks xs ! (2 * k + 1) = (xs ! k + xs ! Suc k) / 2"
proof (induction xs arbitrary: k rule: refined_ticks.induct)
  case (3 x y zs)
  then show ?case by (cases k) simp_all
qed simp_all

subsection \<open>refine()\<close>

lemma refine_loop_result:
  assumes "axis_n this = Addr p" "p < length s" "s ! p = Live (map Value xs)"
    "axis_length this = length xs"
    "refined = \<lparr>axis_n = Addr (length s), axis_length = len\<rparr>"
  shows "k < length xs \<Longrightarrow> length cs = 2 * length xs - 1 \<Longrightarrow>
    refine_loop (s @ [Live cs]) this refined (Suc k) (Suc (2 * k)) =
      Inr (s @ [Live (take (Suc (2 * k)) cs @ map Value (tl (refined_ticks (drop k xs))))])"
proof (induction "length xs - k" arbitrary: k cs)
  case 0
  then show ?case by simp
next
  case (Suc d)
  show ?case
  proof (cases "Suc k < length xs")
    case False
    with Suc.prems have len: "length xs = Suc k" by simp
    then have "take (Suc (2 * k)) cs = cs" using Suc.prems by simp
    with len show ?thesis
      using assms(4) by (subst refine_loop.simps) (simp add: refined_ticks_last)
  next
    case True
    let ?m = "(xs ! k + xs ! Suc k) / 2"
    let ?cs' = "cs[Suc (2 * k) := Value ?m, Suc (Suc (2 * k)) := Value (xs ! Suc k)]"
    have d: "d = length xs - Suc k" using Suc.hyps(2) by simp
    have lcs: "Suc (Suc (2 * k)) < length cs" using True Suc.prems by simp
    have IH: "refine_loop (s @ [Live ?cs']) this refined (Suc (Suc k)) (Suc (2 * Suc k)) =
      Inr (s @ [Live (take (Suc (2 * Suc k)) ?cs' @ map Value (tl (refined_ticks (drop (Suc k) xs))))])"
      using Suc.hyps(1)[OF d True] Suc.prems by simp
    have pk: "\<And>t i. i < length xs \<Longrightarrow> peek (s @ [Live t]) (Addr p) i = Inr (xs ! i)"
      using assms(2,3) by (simp add: peek_live nth_append)
    have tk: "take (Suc (Suc (Suc (2 * k)))) ?cs' =
        take (Suc (2 * k)) cs @ [Value ?m, Value (xs ! Suc k)]"
      using lcs by (simp add: take_Suc_conv_app_nth)
    show ?thesis
      using True lcs assms(1,4,5) IH
      by (subst refine_loop.simps)
         (simp add: pk set_tick_def poke_last tk refined_ticks_step)
  qed
qed

lemma refine_result:
  fixes xs :: "'a::{inverse,numeral} list"
  assumes "axis_holds s a xs" "xs \<noteq> []"
  shows "refine s a =
    Inr (\<lparr>axis_n = Addr (length s), axis_length = 2 * length xs - 1\<rparr>,
         s @ [Live (map Value (refined_ticks xs))])"
proof -
  from assms(1) obtain p where p: "axis_n a = Addr p" "p < length s"
    "s ! p = Live (map Value xs)" "axis_length a = length xs"
    by (rule axis_holdsD)
  let ?len = "2 * length xs - 1"
  let ?r = "\<lparr>axis_n = Addr (length s), axis_length = ?len\<rparr>"
  let ?cs = "(replicate ?len Indeterminate)[0 := Value (xs ! 0)]"
  from assms(2) have pos: "0 < length xs" by simp
  have loop: "refine_loop (s @ [Live ?cs]) a ?r (Suc 0) (Suc (2 * 0)) =
      Inr (s @ [Live (take (Suc (2 * 0)) ?cs @ map Value (tl (refined_ticks (drop 0 xs))))])"
    using p pos by (intro refine_loop_result [where p = p and len = ?len]) simp_all
  from pos have lpos: "0 < ?len" by (cases xs) simp_all
  then have "take (Suc 0) ?cs = [Value (xs ! 0)]"
    by (simp add: take_Suc_conv_app_nth)
  moreover have "refined_ticks xs = xs ! 0 # tl (refined_ticks xs)"
    using assms(2) refined_ticks_Cons [of "hd xs" "tl xs"] by (cases xs) simp_all
  ultimately have "take (Suc (2 * 0)) ?cs @ map Value (tl (refined_ticks (drop 0 xs))) =
      map Value (refined_ticks xs)"
    by (metis append_Cons append_Nil drop0 list.simps(9) mult_0_right)
  with loop have loop': "refine_loop (s @ [Live ?cs]) a ?r (Suc 0) (Suc 0) =
      Inr (s @ [Live (map Value (refined_ticks xs))])"
    by simp
  have "peek (s @ [Live (replicate ?len Indeterminate)]) (Addr p) 0 = Inr (xs ! 0)"
    using p pos by (simp add: peek_live nth_append)
  then show ?thesis
    using p pos lpos loop'
    by (simp add: refine_def Axis_sized_def new_array_def set_tick_def poke_last mult.commute)
qed





text \<open>
  C1. For an Axis that holds \<open>n \<ge> 1\<close> ticks, \<^verbatim>\<open>refine()\<close> returns an Axis of size
  \<open>2n - 1\<close>; its tick at position \<open>2k\<close> is the original tick \<open>k\<close>, for every \<open>k < n\<close>,
  and its tick at position \<open>2k + 1\<close> is \<open>(tick k + tick (k+1)) / 2\<close>, computed in the
  arithmetic of \<^verbatim>\<open>Real\<close>. The ticks need not be increasing for this.
\<close>

theorem refine_ticks:
  fixes xs :: "'a::{inverse,numeral} list"
  assumes "axis_holds s a xs" and "xs \<noteq> []"
  shows "\<exists>r s'. refine s a = Inr (r, s') \<and>
           size_of r = 2 * length xs - 1 \<and>
           (\<forall>k<length xs. tick s' r (2 * k) = Inr (xs ! k)) \<and>
           (\<forall>k. Suc k < length xs \<longrightarrow>
                tick s' r (2 * k + 1) = Inr ((xs ! k + xs ! Suc k) / 2))"
proof -
  let ?r = "\<lparr>axis_n = Addr (length s), axis_length = 2 * length xs - 1\<rparr>"
  let ?s' = "s @ [Live (map Value (refined_ticks xs))]"
  have res: "refine s a = Inr (?r, ?s')"
    using assms by (rule refine_result)
  have "axis_holds ?s' \<lparr>axis_n = Addr (length s), axis_length = length (refined_ticks xs)\<rparr>
          (refined_ticks xs)"
    by (rule axis_holds_new)
  then have holds: "axis_holds ?s' ?r (refined_ticks xs)"
    by (simp add: length_refined_ticks)
  have "size_of ?r = 2 * length xs - 1"
    by (simp add: size_of_def)
  moreover have "\<forall>k<length xs. tick ?s' ?r (2 * k) = Inr (xs ! k)"
  proof (intro allI impI)
    fix k assume k: "k < length xs"
    then have "2 * k < length (refined_ticks xs)"
      by (simp add: length_refined_ticks)
    with holds have "tick ?s' ?r (2 * k) = Inr (refined_ticks xs ! (2 * k))"
      by (rule axis_holds_tick)
    with k show "tick ?s' ?r (2 * k) = Inr (xs ! k)"
      by (simp add: refined_ticks_even)
  qed
  moreover have "\<forall>k. Suc k < length xs \<longrightarrow>
      tick ?s' ?r (2 * k + 1) = Inr ((xs ! k + xs ! Suc k) / 2)"
  proof (intro allI impI)
    fix k assume k: "Suc k < length xs"
    then have "2 * k + 1 < length (refined_ticks xs)"
      by (simp add: length_refined_ticks)
    with holds have "tick ?s' ?r (2 * k + 1) = Inr (refined_ticks xs ! (2 * k + 1))"
      by (rule axis_holds_tick)
    with k show "tick ?s' ?r (2 * k + 1) = Inr ((xs ! k + xs ! Suc k) / 2)"
      by (simp only: refined_ticks_odd)
  qed
  ultimately show ?thesis
    using res by blast
qed

theorem refine_ticks_witness:
  "axis_holds [Live [Value 1, Value 2, Value 4]] \<lparr>axis_n = Addr 0, axis_length = 3\<rparr> [1, 2, 4 :: real] \<and>
   (\<exists>r s'. refine [Live [Value 1, Value 2, Value (4 :: real)]] \<lparr>axis_n = Addr 0, axis_length = 3\<rparr>
              = Inr (r, s') \<and>
            size_of r = 5 \<and>
            tick s' r 0 = Inr 1 \<and> tick s' r 1 = Inr (3 / 2) \<and> tick s' r 2 = Inr 2 \<and>
            tick s' r 3 = Inr 3 \<and> tick s' r 4 = Inr 4)"
proof -
  let ?s = "[Live [Value 1, Value 2, Value (4 :: real)]]"
  let ?a = "\<lparr>axis_n = Addr 0, axis_length = 3\<rparr>"
  have h: "axis_holds ?s ?a [1, 2, 4]"
    by (simp add: axis_holds_def block_at_def)
  have ne: "[1, 2, 4 :: real] \<noteq> []"
    by simp
  from refine_ticks [OF h ne] obtain r s' where
    r: "refine ?s ?a = Inr (r, s')" "size_of r = 2 * length [1, 2, 4 :: real] - 1"
    and even: "\<forall>k<length [1, 2, 4 :: real]. tick s' r (2 * k) = Inr ([1, 2, 4] ! k)"
    and odd: "\<forall>k. Suc k < length [1, 2, 4 :: real] \<longrightarrow>
        tick s' r (2 * k + 1) = Inr (([1, 2, 4] ! k + [1, 2, 4] ! Suc k) / 2)"
    by blast
  from even [rule_format, of 0] even [rule_format, of 1] even [rule_format, of 2]
  have "tick s' r 0 = Inr 1" "tick s' r 2 = Inr 2" "tick s' r 4 = Inr 4"
    by simp_all
  moreover from odd [rule_format, of 0] odd [rule_format, of 1]
  have "tick s' r 1 = Inr (3 / 2)" "tick s' r 3 = Inr 3"
    by simp_all
  ultimately show ?thesis
    using h r by auto
qed




subsection \<open>Constructors\<close>

lemma init_loop_result:
  "i + length list \<le> length cs \<Longrightarrow>
   init_loop (s @ [Live cs]) (Addr (length s)) i list =
     Inr (s @ [Live (take i cs @ map Value list @ drop (i + length list) cs)])"
proof (induction list arbitrary: i cs)
  case Nil
  then show ?case by simp
next
  case (Cons t list)
  then have i: "i < length cs" by simp
  have "take (Suc i) (cs[i := Value t]) = take i cs @ [Value t]"
    using i by (simp add: take_Suc_conv_app_nth)
  moreover have "drop (Suc i + length list) (cs[i := Value t]) = drop (Suc i + length list) cs"
    by simp
  moreover have "init_loop (s @ [Live (cs[i := Value t])]) (Addr (length s)) (Suc i) list =
      Inr (s @ [Live (take (Suc i) (cs[i := Value t]) @ map Value list @
                      drop (Suc i + length list) (cs[i := Value t]))])"
    using Cons.prems by (intro Cons.IH) simp
  ultimately show ?case
    using i by (simp add: poke_last)
qed

lemma check_loop_result:
  fixes xs :: "'a::ord list"
  assumes "p < length s" "s ! p = Live (map Value xs)"
  shows "check_loop s (Addr p) (length xs) i =
           (if strictly_increasing (drop i xs) then Inr () else Inl AssertionFailed)"
proof (induction "length xs - i" arbitrary: i)
  case 0
  then have "drop i xs = []" and "\<not> i < length xs - 1" by simp_all
  then show ?case
    by (subst check_loop.simps) simp
next
  case (Suc d)
  show ?case
  proof (cases "Suc i < length xs")
    case False
    with Suc.hyps(2) have "length xs = Suc i" by simp
    then have "drop i xs = [xs ! i]"
      by (metis Cons_nth_drop_Suc drop_all lessI order_refl)
    moreover from False have "\<not> i < length xs - 1" by simp
    ultimately show ?thesis
      by (subst check_loop.simps) simp
  next
    case True
    then have "drop i xs = xs ! i # xs ! Suc i # drop (Suc (Suc i)) xs"
      by (simp add: Cons_nth_drop_Suc Suc_lessD)
    moreover from True have "drop (Suc i) xs = xs ! Suc i # drop (Suc (Suc i)) xs"
      by (simp add: Cons_nth_drop_Suc)
    ultimately have unfold: "strictly_increasing (drop i xs) \<longleftrightarrow>
        xs ! i < xs ! Suc i \<and> strictly_increasing (drop (Suc i) xs)"
      by simp
    have d: "d = length xs - Suc i" using Suc.hyps(2) by simp
    have IH: "check_loop s (Addr p) (length xs) (Suc i) =
        (if strictly_increasing (drop (Suc i) xs) then Inr () else Inl AssertionFailed)"
      using d by (rule Suc.hyps(1))
    from True have "i < length xs - 1" "i < length xs" by simp_all
    then show ?thesis
      using True assms IH unfold
      by (subst check_loop.simps) (simp add: peek_live c_assert_def)
  qed
qed

lemma Axis_init_result:
  fixes xs :: "'a::ord list"
  shows "Axis_init NDEBUG s xs =
    (if \<not> NDEBUG \<and> (xs = [] \<or> \<not> strictly_increasing xs) then Inl AssertionFailed
     else Inr (\<lparr>axis_n = Addr (length s), axis_length = length xs\<rparr>,
               s @ [Live (map Value xs)]))"
proof -
  have init: "init_loop (s @ [Live (replicate (length xs) Indeterminate)]) (Addr (length s)) 0 xs
      = Inr (s @ [Live (map Value xs)])"
    using init_loop_result [of 0 xs "replicate (length xs) Indeterminate" s] by simp
  have check: "check_loop (s @ [Live (map Value xs)]) (Addr (length s)) (length xs) 0 =
      (if strictly_increasing xs then Inr () else Inl AssertionFailed)"
    using check_loop_result [of "length s" "s @ [Live (map Value xs)]" xs 0] by simp
  show ?thesis
  proof (cases "xs = []")
    case True
    then show ?thesis
      by (cases NDEBUG) (simp_all add: Axis_init_def Let_def c_assert_def new_array_def)
  next
    case False
    then have "0 < length xs" by simp
    then show ?thesis
      using False by (simp add: Axis_init_def Let_def c_assert_def new_array_def init check)
  qed
qed

lemma Axis_of_vector_result:
  "Axis_of_vector s v =
     Inr (\<lparr>axis_n = Addr (length s), axis_length = length v\<rparr>, s @ [Live (map Value v)])"
  by (simp add: Axis_of_vector_def new_array_def memcpy_last)

lemma Axis_copy_result:
  assumes "axis_holds s a xs"
  shows "Axis_copy s a =
     Inr (\<lparr>axis_n = Addr (length s), axis_length = length xs\<rparr>, s @ [Live (map Value xs)])"
proof -
  from assms obtain p where p: "axis_n a = Addr p" "p < length s"
    "s ! p = Live (map Value xs)" "axis_length a = length xs"
    by (rule axis_holdsD)
  then have "block_at (s @ [Live (replicate (length xs) Indeterminate)]) (axis_n a) =
      Inr (p, map Value xs)"
    by (simp add: block_at_live nth_append)
  with p show ?thesis
    by (simp add: Axis_copy_def new_array_def memcpy_last)
qed

lemma Axis_assign_result:
  assumes "axis_holds s a xs" and "axis_holds s b ys \<or> axis_n b = Null"
  shows "\<exists>s'. Axis_assign s b a =
            Inr (\<lparr>axis_n = Addr (length s), axis_length = length xs\<rparr>, s') \<and>
          length s' = Suc (length s) \<and> s' ! length s = Live (map Value xs) \<and>
          (\<forall>p. p < length s \<longrightarrow> Addr p \<noteq> axis_n b \<longrightarrow> s' ! p = s ! p)"
proof -
  let ?s1 = "s @ [Live (map Value xs)]"
  have copy: "Axis_copy s a =
      Inr (\<lparr>axis_n = Addr (length s), axis_length = length xs\<rparr>, ?s1)"
    using assms(1) by (rule Axis_copy_result)
  from assms(2) show ?thesis
  proof
    assume "axis_holds s b ys"
    then obtain q where q: "axis_n b = Addr q" "q < length s" "s ! q = Live (map Value ys)"
      by (rule axis_holdsD)
    then have "block_at ?s1 (Addr q) = Inr (q, map Value ys)"
      by (simp add: block_at_live nth_append)
    with q have "Axis_assign s b a =
        Inr (\<lparr>axis_n = Addr (length s), axis_length = length xs\<rparr>, ?s1[q := Freed])"
      by (simp add: Axis_assign_def copy Axis_destroy_def delete_array_def)
    moreover from q have "?s1[q := Freed] ! length s = Live (map Value xs)"
      by simp
    moreover from q have "\<forall>p. p < length s \<longrightarrow> Addr p \<noteq> axis_n b \<longrightarrow> ?s1[q := Freed] ! p = s ! p"
      by (simp add: nth_append)
    ultimately show ?thesis
      by simp
  next
    assume "axis_n b = Null"
    then have "Axis_assign s b a =
        Inr (\<lparr>axis_n = Addr (length s), axis_length = length xs\<rparr>, ?s1)"
      by (simp add: Axis_assign_def copy Axis_destroy_def delete_array_def)
    then show ?thesis
      by (simp add: nth_append)
  qed
qed


text \<open>
  C4. The constructor from an initializer list validates in debug builds only. Without
  \<^verbatim>\<open>NDEBUG\<close> it fails an assertion exactly when the list is empty or not strictly
  increasing. When the list is non-empty and strictly increasing it builds, in either
  build, an Axis whose size is the length of the list and whose ticks are the listed
  ones in order. With \<^verbatim>\<open>NDEBUG\<close> it builds that Axis from every list.
\<close>

theorem Axis_init_validates_in_debug_only:
  fixes xs :: "'a::ord list"
  shows "(Axis_init False s xs = Inl AssertionFailed \<longleftrightarrow> xs = [] \<or> \<not> strictly_increasing xs) \<and>
         (xs \<noteq> [] \<and> strictly_increasing xs \<longrightarrow>
            (\<exists>a s'. Axis_init NDEBUG s xs = Inr (a, s') \<and> size_of a = length xs \<and>
                     (\<forall>i<length xs. tick s' a i = Inr (xs ! i)))) \<and>
         (\<exists>a s'. Axis_init True s xs = Inr (a, s') \<and> size_of a = length xs \<and>
                  (\<forall>i<length xs. tick s' a i = Inr (xs ! i)))"
proof -
  let ?a = "\<lparr>axis_n = Addr (length s), axis_length = length xs\<rparr>"
  let ?s' = "s @ [Live (map Value xs)]"
  have holds: "axis_holds ?s' ?a xs"
    by (rule axis_holds_new)
  then have obs: "size_of ?a = length xs \<and> (\<forall>i<length xs. tick ?s' ?a i = Inr (xs ! i))"
    by (simp add: axis_holds_size axis_holds_tick)
  have debug: "Axis_init False s xs = Inl AssertionFailed \<longleftrightarrow> xs = [] \<or> \<not> strictly_increasing xs"
    by (simp add: Axis_init_result)
  have ok: "xs \<noteq> [] \<and> strictly_increasing xs \<longrightarrow> Axis_init NDEBUG s xs = Inr (?a, ?s')"
    by (simp add: Axis_init_result)
  have release: "Axis_init True s xs = Inr (?a, ?s')"
    by (simp add: Axis_init_result)
  from debug ok release obs show ?thesis
    by blast
qed

theorem Axis_init_validates_in_debug_only_witness:
  "Axis_init False [] [1, 2, 4 :: real] \<noteq> Inl AssertionFailed \<and>
   Axis_init False [] [1, 4, 2 :: real] = Inl AssertionFailed \<and>
   Axis_init False [] ([] :: real list) = Inl AssertionFailed \<and>
   (\<exists>a s'. Axis_init False [] [1, 2, 4 :: real] = Inr (a, s') \<and> size_of a = 3 \<and>
            tick s' a 0 = Inr 1 \<and> tick s' a 1 = Inr 2 \<and> tick s' a 2 = Inr 4) \<and>
   (\<exists>a s'. Axis_init True [] [1, 4, 2 :: real] = Inr (a, s') \<and> size_of a = 3 \<and>
            tick s' a 0 = Inr 1 \<and> tick s' a 1 = Inr 4 \<and> tick s' a 2 = Inr 2)"
proof -
  note good = Axis_init_validates_in_debug_only [of "[]" "[1, 2, 4 :: real]" False]
  note bad = Axis_init_validates_in_debug_only [of "[]" "[1, 4, 2 :: real]" False]
  note none = Axis_init_validates_in_debug_only [of "[]" "[] :: real list" False]
  have inc: "[1, 2, 4 :: real] \<noteq> [] \<and> strictly_increasing [1, 2, 4 :: real]"
    by simp
  from good have "Axis_init False [] [1, 2, 4 :: real] \<noteq> Inl AssertionFailed"
    by simp
  moreover from bad have "Axis_init False [] [1, 4, 2 :: real] = Inl AssertionFailed"
    by simp
  moreover from none have "Axis_init False [] ([] :: real list) = Inl AssertionFailed"
    by simp
  moreover from good inc obtain a s' where
    "Axis_init False [] [1, 2, 4 :: real] = Inr (a, s')" "size_of a = length [1, 2, 4 :: real]"
    and t: "\<forall>i<length [1, 2, 4 :: real]. tick s' a i = Inr ([1, 2, 4] ! i)"
    by blast
  with t [rule_format, of 0] t [rule_format, of 1] t [rule_format, of 2]
  have "\<exists>a s'. Axis_init False [] [1, 2, 4 :: real] = Inr (a, s') \<and> size_of a = 3 \<and>
            tick s' a 0 = Inr 1 \<and> tick s' a 1 = Inr 2 \<and> tick s' a 2 = Inr 4"
    by auto
  moreover from bad obtain a s' where
    "Axis_init True [] [1, 4, 2 :: real] = Inr (a, s')" "size_of a = length [1, 4, 2 :: real]"
    and t: "\<forall>i<length [1, 4, 2 :: real]. tick s' a i = Inr ([1, 4, 2] ! i)"
    by blast
  with t [rule_format, of 0] t [rule_format, of 1] t [rule_format, of 2]
  have "\<exists>a s'. Axis_init True [] [1, 4, 2 :: real] = Inr (a, s') \<and> size_of a = 3 \<and>
            tick s' a 0 = Inr 1 \<and> tick s' a 1 = Inr 4 \<and> tick s' a 2 = Inr 2"
    by auto
  ultimately show ?thesis
    by blast
qed

text \<open>
  C5. The constructor from a \<^verbatim>\<open>Vector\<close> checks nothing: for every vector, empty or not,
  increasing or not, it builds an Axis whose size is the size of the vector and whose
  tick at every index is the element of the vector at that index.
\<close>

theorem Axis_of_vector_verbatim:
  "\<exists>a s'. Axis_of_vector s v = Inr (a, s') \<and> size_of a = length v \<and>
           (\<forall>i<length v. tick s' a i = Inr (v ! i))"
proof -
  let ?a = "\<lparr>axis_n = Addr (length s), axis_length = length v\<rparr>"
  let ?s' = "s @ [Live (map Value v)]"
  have "axis_holds ?s' ?a v"
    by (rule axis_holds_new)
  then have "size_of ?a = length v \<and> (\<forall>i<length v. tick ?s' ?a i = Inr (v ! i))"
    by (simp add: axis_holds_size axis_holds_tick)
  then show ?thesis
    using Axis_of_vector_result [of s v] by blast
qed

theorem Axis_of_vector_verbatim_witness:
  "(\<exists>a s'. Axis_of_vector [] [3, 1, 1 :: real] = Inr (a, s') \<and> size_of a = 3 \<and>
            tick s' a 0 = Inr 3 \<and> tick s' a 1 = Inr 1 \<and> tick s' a 2 = Inr 1) \<and>
   (\<exists>a s'. Axis_of_vector [] ([] :: real list) = Inr (a, s') \<and> size_of a = 0)"
proof -
  from Axis_of_vector_verbatim [of "[]" "[3, 1, 1 :: real]"] obtain a s' where
    "Axis_of_vector [] [3, 1, 1 :: real] = Inr (a, s')" "size_of a = length [3, 1, 1 :: real]"
    and t: "\<forall>i<length [3, 1, 1 :: real]. tick s' a i = Inr ([3, 1, 1] ! i)"
    by blast
  with t [rule_format, of 0] t [rule_format, of 1] t [rule_format, of 2]
  have "\<exists>a s'. Axis_of_vector [] [3, 1, 1 :: real] = Inr (a, s') \<and> size_of a = 3 \<and>
            tick s' a 0 = Inr 3 \<and> tick s' a 1 = Inr 1 \<and> tick s' a 2 = Inr 1"
    by auto
  moreover from Axis_of_vector_verbatim [of "[]" "[] :: real list"]
  have "\<exists>a s'. Axis_of_vector [] ([] :: real list) = Inr (a, s') \<and> size_of a = 0"
    by auto
  ultimately show ?thesis
    by blast
qed

subsection \<open>Printing\<close>






subsection \<open>Independent storage\<close>

lemma independent_storage:
  assumes "axis_holds s a xs" and "axis_holds s1 a xs" and "axis_holds s1 b ys"
    and "axis_n b \<noteq> axis_n a"
  shows "(\<forall>k < size_of a. tick s1 a k = tick s a k) \<and>
         (\<forall>i v. i < size_of b \<longrightarrow>
            (\<exists>s2. set_tick s1 b i v = Inr s2 \<and> tick s2 b i = Inr v \<and>
                  (\<forall>k < size_of a. tick s2 a k = tick s a k)))"
proof -
  have size_a: "size_of a = length xs"
    using assms(1) by (rule axis_holds_size)
  have size_b: "size_of b = length ys"
    using assms(3) by (rule axis_holds_size)
  have same: "\<forall>k < size_of a. tick s1 a k = tick s a k"
    using assms(1,2) by (simp add: size_a axis_holds_tick)
  have "\<forall>i v. i < size_of b \<longrightarrow>
      (\<exists>s2. set_tick s1 b i v = Inr s2 \<and> tick s2 b i = Inr v \<and>
            (\<forall>k < size_of a. tick s2 a k = tick s a k))"
  proof (intro allI impI)
    fix i v assume "i < size_of b"
    then have i: "i < length ys" by (simp add: size_b)
    with assms(3) obtain s2 where s2: "set_tick s1 b i v = Inr s2"
      "axis_holds s2 b (ys[i := v])"
      "\<forall>a xs. axis_holds s1 a xs \<longrightarrow> axis_n a \<noteq> axis_n b \<longrightarrow> axis_holds s2 a xs"
      using set_tick_holds [of s1 b ys i v] by blast
    from s2(2) i have "tick s2 b i = Inr v"
      using axis_holds_tick [of s2 b "ys[i := v]" i] by simp
    moreover from s2(3) assms(2,4) have "axis_holds s2 a xs"
      by metis
    then have "\<forall>k < size_of a. tick s2 a k = tick s a k"
      using assms(1) by (simp add: size_a axis_holds_tick)
    ultimately show "\<exists>s2. set_tick s1 b i v = Inr s2 \<and> tick s2 b i = Inr v \<and>
        (\<forall>k < size_of a. tick s2 a k = tick s a k)"
      using s2(1) by blast
  qed
  with same show ?thesis
    by blast
qed

text \<open>
  C6. Copies are deep. Let \<open>a\<close> be an Axis that holds the ticks \<open>xs\<close>.
  \<^item> The copy constructor builds an Axis \<open>b\<close> of the same size with the same tick at
    every index, and leaves the ticks of \<open>a\<close> as they were.
  \<^item> So does the assignment \<^verbatim>\<open>b0 = a\<close>, for every other Axis \<open>b0\<close>: one that holds
    ticks of its own in an array that is not the array of \<open>a\<close>, or one that was moved
    from.
  \<^item> In both cases every write \<^verbatim>\<open>b(i) = v\<close> with \<open>i\<close> below the size succeeds, is read back
    from \<open>b\<close>, and leaves every tick of \<open>a\<close> as it was.
\<close>

theorem copies_are_deep:
  assumes "axis_holds s a xs"
  shows "(\<exists>b s1. Axis_copy s a = Inr (b, s1) \<and>
            size_of b = size_of a \<and>
            (\<forall>i < size_of a. tick s1 b i = tick s a i) \<and>
            (\<forall>k < size_of a. tick s1 a k = tick s a k) \<and>
            (\<forall>i v. i < size_of b \<longrightarrow>
               (\<exists>s2. set_tick s1 b i v = Inr s2 \<and> tick s2 b i = Inr v \<and>
                     (\<forall>k < size_of a. tick s2 a k = tick s a k)))) \<and>
         (\<forall>b0 ys. (axis_holds s b0 ys \<or> axis_n b0 = Null) \<and> axis_n b0 \<noteq> axis_n a \<longrightarrow>
            (\<exists>b s1. Axis_assign s b0 a = Inr (b, s1) \<and>
               size_of b = size_of a \<and>
               (\<forall>i < size_of a. tick s1 b i = tick s a i) \<and>
               (\<forall>k < size_of a. tick s1 a k = tick s a k) \<and>
               (\<forall>i v. i < size_of b \<longrightarrow>
                  (\<exists>s2. set_tick s1 b i v = Inr s2 \<and> tick s2 b i = Inr v \<and>
                        (\<forall>k < size_of a. tick s2 a k = tick s a k)))))"
proof -
  from assms obtain p where p: "axis_n a = Addr p" "p < length s"
    "s ! p = Live (map Value xs)" "axis_length a = length xs"
    by (rule axis_holdsD)
  have size_a: "size_of a = length xs"
    using assms by (rule axis_holds_size)
  let ?b = "\<lparr>axis_n = Addr (length s), axis_length = length xs\<rparr>"
  have fresh: "axis_n ?b \<noteq> axis_n a"
    using p by simp
  have size_b: "size_of ?b = size_of a"
    using size_a by (simp add: size_of_def)
  have copied: "\<And>s1. axis_holds s1 a xs \<Longrightarrow> axis_holds s1 ?b xs \<Longrightarrow>
      size_of ?b = size_of a \<and>
      (\<forall>i < size_of a. tick s1 ?b i = tick s a i) \<and>
      (\<forall>k < size_of a. tick s1 a k = tick s a k) \<and>
      (\<forall>i v. i < size_of ?b \<longrightarrow>
         (\<exists>s2. set_tick s1 ?b i v = Inr s2 \<and> tick s2 ?b i = Inr v \<and>
               (\<forall>k < size_of a. tick s2 a k = tick s a k)))"
  proof -
    fix s1 assume a1: "axis_holds s1 a xs" and b1: "axis_holds s1 ?b xs"
    have "\<forall>i < size_of a. tick s1 ?b i = tick s a i"
      using assms b1 by (simp add: size_a axis_holds_tick)
    with size_b independent_storage [OF assms a1 b1 fresh]
    show "size_of ?b = size_of a \<and>
      (\<forall>i < size_of a. tick s1 ?b i = tick s a i) \<and>
      (\<forall>k < size_of a. tick s1 a k = tick s a k) \<and>
      (\<forall>i v. i < size_of ?b \<longrightarrow>
         (\<exists>s2. set_tick s1 ?b i v = Inr s2 \<and> tick s2 ?b i = Inr v \<and>
               (\<forall>k < size_of a. tick s2 a k = tick s a k)))"
      by blast
  qed
  have ctor: "\<exists>b s1. Axis_copy s a = Inr (b, s1) \<and>
            size_of b = size_of a \<and>
            (\<forall>i < size_of a. tick s1 b i = tick s a i) \<and>
            (\<forall>k < size_of a. tick s1 a k = tick s a k) \<and>
            (\<forall>i v. i < size_of b \<longrightarrow>
               (\<exists>s2. set_tick s1 b i v = Inr s2 \<and> tick s2 b i = Inr v \<and>
                     (\<forall>k < size_of a. tick s2 a k = tick s a k)))"
  proof -
    let ?s1 = "s @ [Live (map Value xs)]"
    have "Axis_copy s a = Inr (?b, ?s1)"
      using assms by (rule Axis_copy_result)
    moreover have "axis_holds ?s1 a xs"
      using assms by (rule axis_holds_append)
    moreover have "axis_holds ?s1 ?b xs"
      by (rule axis_holds_new)
    ultimately show ?thesis
      using copied [of ?s1] by blast
  qed
  have assign: "\<forall>b0 ys. (axis_holds s b0 ys \<or> axis_n b0 = Null) \<and> axis_n b0 \<noteq> axis_n a \<longrightarrow>
            (\<exists>b s1. Axis_assign s b0 a = Inr (b, s1) \<and>
               size_of b = size_of a \<and>
               (\<forall>i < size_of a. tick s1 b i = tick s a i) \<and>
               (\<forall>k < size_of a. tick s1 a k = tick s a k) \<and>
               (\<forall>i v. i < size_of b \<longrightarrow>
                  (\<exists>s2. set_tick s1 b i v = Inr s2 \<and> tick s2 b i = Inr v \<and>
                        (\<forall>k < size_of a. tick s2 a k = tick s a k))))"
  proof (intro allI impI)
    fix b0 :: Axis and ys :: "'a list"
    assume b0: "(axis_holds s b0 ys \<or> axis_n b0 = Null) \<and> axis_n b0 \<noteq> axis_n a"
    then obtain s1 where s1: "Axis_assign s b0 a = Inr (?b, s1)"
      "length s1 = Suc (length s)" "s1 ! length s = Live (map Value xs)"
      "\<forall>q. q < length s \<longrightarrow> Addr q \<noteq> axis_n b0 \<longrightarrow> s1 ! q = s ! q"
      using Axis_assign_result [OF assms, of b0 ys] by blast
    from s1(4) p b0 have "s1 ! p = Live (map Value xs)"
      by metis
    with p s1(2) have "axis_holds s1 a xs"
      by (intro axis_holdsI [where p = p]) simp_all
    moreover from s1(2,3) have "axis_holds s1 ?b xs"
      by (intro axis_holdsI [where p = "length s"]) simp_all
    ultimately show "\<exists>b s1. Axis_assign s b0 a = Inr (b, s1) \<and>
               size_of b = size_of a \<and>
               (\<forall>i < size_of a. tick s1 b i = tick s a i) \<and>
               (\<forall>k < size_of a. tick s1 a k = tick s a k) \<and>
               (\<forall>i v. i < size_of b \<longrightarrow>
                  (\<exists>s2. set_tick s1 b i v = Inr s2 \<and> tick s2 b i = Inr v \<and>
                        (\<forall>k < size_of a. tick s2 a k = tick s a k)))"
      using s1(1) copied [of s1] by blast
  qed
  from ctor assign show ?thesis
    by (rule conjI)
qed

text \<open>
  C7. \<^verbatim>\<open>refine()\<close> does not change its receiver. For an Axis \<open>a\<close> that holds \<open>n \<ge> 1\<close>
  ticks, the call returns an Axis \<open>r\<close> and a store in which every array that existed
  before the call is as it was, so \<open>a\<close> holds the same ticks; \<open>a\<close> itself is passed as
  a constant and keeps its size. The array of \<open>r\<close> is not the array of \<open>a\<close>: every write
  \<^verbatim>\<open>r(i) = v\<close> below the size of \<open>r\<close> succeeds and leaves every tick of \<open>a\<close> as it was.
\<close>

theorem refine_leaves_receiver:
  fixes xs :: "'a::{inverse,numeral} list"
  assumes "axis_holds s a xs" and "xs \<noteq> []"
  shows "\<exists>r s'. refine s a = Inr (r, s') \<and>
           take (length s) s' = s \<and>
           axis_holds s' a xs \<and>
           (\<forall>k < size_of a. tick s' a k = tick s a k) \<and>
           axis_n r \<noteq> axis_n a \<and>
           (\<forall>i v. i < size_of r \<longrightarrow>
              (\<exists>s2. set_tick s' r i v = Inr s2 \<and> tick s2 r i = Inr v \<and>
                    (\<forall>k < size_of a. tick s2 a k = tick s a k)))"
proof -
  let ?r = "\<lparr>axis_n = Addr (length s), axis_length = 2 * length xs - 1\<rparr>"
  let ?s' = "s @ [Live (map Value (refined_ticks xs))]"
  have res: "refine s a = Inr (?r, ?s')"
    using assms by (rule refine_result)
  from assms(1) obtain p where p: "axis_n a = Addr p" "p < length s"
    by (rule axis_holdsD)
  then have fresh: "axis_n ?r \<noteq> axis_n a"
    by simp
  have a': "axis_holds ?s' a xs"
    using assms(1) by (rule axis_holds_append)
  have "axis_holds ?s' \<lparr>axis_n = Addr (length s), axis_length = length (refined_ticks xs)\<rparr>
          (refined_ticks xs)"
    by (rule axis_holds_new)
  then have r': "axis_holds ?s' ?r (refined_ticks xs)"
    by (simp add: length_refined_ticks)
  have "take (length s) ?s' = s"
    by simp
  with res a' fresh independent_storage [OF assms(1) a' r' fresh] show ?thesis
    by blast
qed


theorem copies_are_deep_witness:
  "axis_holds [Live [Value 1, Value 2], Live [Value 7]] \<lparr>axis_n = Addr 0, axis_length = 2\<rparr> [1, 2 :: real] \<and>
   (\<exists>b s1. Axis_copy [Live [Value 1, Value 2], Live [Value (7 :: real)]]
              \<lparr>axis_n = Addr 0, axis_length = 2\<rparr> = Inr (b, s1) \<and>
      size_of b = 2 \<and> tick s1 b 0 = Inr 1 \<and>
      (\<exists>s2. set_tick s1 b 0 9 = Inr s2 \<and> tick s2 b 0 = Inr 9 \<and>
            tick s2 \<lparr>axis_n = Addr 0, axis_length = 2\<rparr> 0 = Inr 1)) \<and>
   (axis_holds [Live [Value 1, Value 2], Live [Value 7]] \<lparr>axis_n = Addr 1, axis_length = 1\<rparr> [7 :: real] \<or>
      axis_n \<lparr>axis_n = Addr 1, axis_length = 1\<rparr> = Null) \<and>
   axis_n \<lparr>axis_n = Addr 1, axis_length = 1\<rparr> \<noteq> axis_n \<lparr>axis_n = Addr 0, axis_length = 2\<rparr> \<and>
   (\<exists>b s1. Axis_assign [Live [Value 1, Value 2], Live [Value (7 :: real)]]
              \<lparr>axis_n = Addr 1, axis_length = 1\<rparr> \<lparr>axis_n = Addr 0, axis_length = 2\<rparr> = Inr (b, s1) \<and>
      size_of b = 2 \<and> tick s1 b 0 = Inr 1 \<and>
      (\<exists>s2. set_tick s1 b 0 9 = Inr s2 \<and> tick s2 b 0 = Inr 9 \<and>
            tick s2 \<lparr>axis_n = Addr 0, axis_length = 2\<rparr> 0 = Inr 1))"
proof -
  let ?s = "[Live [Value 1, Value 2], Live [Value (7 :: real)]]"
  let ?a = "\<lparr>axis_n = Addr 0, axis_length = 2\<rparr>"
  let ?b0 = "\<lparr>axis_n = Addr 1, axis_length = 1\<rparr>"
  have h: "axis_holds ?s ?a [1, 2]"
    by (simp add: axis_holds_def block_at_def)
  have h0: "(axis_holds ?s ?b0 [7] \<or> axis_n ?b0 = Null) \<and> axis_n ?b0 \<noteq> axis_n ?a"
    by (simp add: axis_holds_def block_at_def)
  have size_a: "size_of ?a = 2"
    by (simp add: size_of_def)
  have tick_a: "tick ?s ?a 0 = Inr 1"
    by (simp add: tick_def peek_def block_at_def)
  note deep = copies_are_deep [OF h]
  from deep obtain b s1 where c: "Axis_copy ?s ?a = Inr (b, s1)" "size_of b = size_of ?a"
    "\<forall>i < size_of ?a. tick s1 b i = tick ?s ?a i"
    and cw: "\<forall>i v. i < size_of b \<longrightarrow>
       (\<exists>s2. set_tick s1 b i v = Inr s2 \<and> tick s2 b i = Inr v \<and>
             (\<forall>k < size_of ?a. tick s2 ?a k = tick ?s ?a k))"
    by blast
  from cw [rule_format, of 0 9] c(2) obtain s2 where
    "set_tick s1 b 0 9 = Inr s2" "tick s2 b 0 = Inr 9" "\<forall>k < size_of ?a. tick s2 ?a k = tick ?s ?a k"
    by (auto simp: size_a)
  with c have copy: "\<exists>b s1. Axis_copy ?s ?a = Inr (b, s1) \<and>
      size_of b = 2 \<and> tick s1 b 0 = Inr 1 \<and>
      (\<exists>s2. set_tick s1 b 0 9 = Inr s2 \<and> tick s2 b 0 = Inr 9 \<and> tick s2 ?a 0 = Inr 1)"
    by (auto simp: size_a tick_a)
  from deep h0 obtain b s1 where c: "Axis_assign ?s ?b0 ?a = Inr (b, s1)" "size_of b = size_of ?a"
    "\<forall>i < size_of ?a. tick s1 b i = tick ?s ?a i"
    and cw: "\<forall>i v. i < size_of b \<longrightarrow>
       (\<exists>s2. set_tick s1 b i v = Inr s2 \<and> tick s2 b i = Inr v \<and>
             (\<forall>k < size_of ?a. tick s2 ?a k = tick ?s ?a k))"
    by blast
  from cw [rule_format, of 0 9] c(2) obtain s2 where
    "set_tick s1 b 0 9 = Inr s2" "tick s2 b 0 = Inr 9" "\<forall>k < size_of ?a. tick s2 ?a k = tick ?s ?a k"
    by (auto simp: size_a)
  with c have assign: "\<exists>b s1. Axis_assign ?s ?b0 ?a = Inr (b, s1) \<and>
      size_of b = 2 \<and> tick s1 b 0 = Inr 1 \<and>
      (\<exists>s2. set_tick s1 b 0 9 = Inr s2 \<and> tick s2 b 0 = Inr 9 \<and> tick s2 ?a 0 = Inr 1)"
    by (auto simp: size_a tick_a)
  from h h0 copy assign show ?thesis
    by blast
qed

theorem refine_leaves_receiver_witness:
  "axis_holds [Live [Value 1, Value 2, Value 4]] \<lparr>axis_n = Addr 0, axis_length = 3\<rparr> [1, 2, 4 :: real] \<and>
   (\<exists>r s'. refine [Live [Value 1, Value 2, Value (4 :: real)]] \<lparr>axis_n = Addr 0, axis_length = 3\<rparr>
              = Inr (r, s') \<and>
      tick s' \<lparr>axis_n = Addr 0, axis_length = 3\<rparr> 2 = Inr 4 \<and>
      axis_n r \<noteq> Addr 0 \<and>
      (\<exists>s2. set_tick s' r 4 9 = Inr s2 \<and> tick s2 r 4 = Inr 9 \<and>
            tick s2 \<lparr>axis_n = Addr 0, axis_length = 3\<rparr> 2 = Inr 4))"
proof -
  let ?s = "[Live [Value 1, Value 2, Value (4 :: real)]]"
  let ?a = "\<lparr>axis_n = Addr 0, axis_length = 3\<rparr>"
  have h: "axis_holds ?s ?a [1, 2, 4]"
    by (simp add: axis_holds_def block_at_def)
  have ne: "[1, 2, 4 :: real] \<noteq> []"
    by simp
  have size_a: "size_of ?a = 3"
    by (simp add: size_of_def)
  have tick_a: "tick ?s ?a 2 = Inr 4"
    by (simp add: tick_def peek_def block_at_def)
  have res: "refine ?s ?a = Inr (\<lparr>axis_n = Addr 1, axis_length = 5\<rparr>,
      ?s @ [Live (map Value (refined_ticks [1, 2, 4]))])"
    using refine_result [OF h ne] by simp
  from refine_leaves_receiver [OF h ne] obtain r s' where
    r: "refine ?s ?a = Inr (r, s')" "\<forall>k < size_of ?a. tick s' ?a k = tick ?s ?a k"
    "axis_n r \<noteq> axis_n ?a"
    and w: "\<forall>i v. i < size_of r \<longrightarrow>
       (\<exists>s2. set_tick s' r i v = Inr s2 \<and> tick s2 r i = Inr v \<and>
             (\<forall>k < size_of ?a. tick s2 ?a k = tick ?s ?a k))"
    by blast
  from r(1) res have "size_of r = 5"
    by (auto simp: size_of_def)
  with w [rule_format, of 4 9] obtain s2 where
    "set_tick s' r 4 9 = Inr s2" "tick s2 r 4 = Inr 9" "\<forall>k < size_of ?a. tick s2 ?a k = tick ?s ?a k"
    by auto
  with r h show ?thesis
    by (auto simp: size_a tick_a)
qed


subsection \<open>The option loop\<close>

lemma getopt_loop_accepted:
  "list_all accepted pre \<Longrightarrow> \<exists>l'. getopt_loop l (pre @ rest) = getopt_loop l' rest"
proof (induction pre arbitrary: l)
  case Nil
  then show ?case by auto
next
  case (Cons x pre)
  then have "accepted x" and "list_all accepted pre" by simp_all
  with Cons.IH show ?case
    by (cases x) simp_all
qed

text \<open>
  C8, as amended. The options are handled in command-line order, and the first one that
  is \<^verbatim>\<open>-h\<close>, an out-of-range value or an unrecognised option ends the program inside
  the option loop, before the grid is built and anything is computed; the options
  after it are not examined. There \<^verbatim>\<open>-h\<close> writes the usage text and returns 0; a
  negative \<^verbatim>\<open>-e\<close>, a non-positive \<^verbatim>\<open>-N\<close>, a negative \<^verbatim>\<open>-R\<close> and a non-positive
  \<^verbatim>\<open>-T\<close> each write their error message to the error stream and return 1; an
  unrecognised option writes the usage text and returns 1.
\<close>

theorem first_rejected_option_decides:
  fixes pre post :: "'a::linordered_field opt list"
  assumes "list_all accepted pre"
  shows "main (pre @ Opt_h # post) = Exit 0 help_text \<and>
         (x <s 0 \<longrightarrow> main (pre @ Opt_e x # post) =
            Exit 1 (''error: the number of premature exercises must be nonnegative'' @ endl)) \<and>
         (n \<le>s 0 \<longrightarrow> main (pre @ Opt_N n # post) =
            Exit 1 (''error: the number of steps must be positive'' @ endl)) \<and>
         (y <s 0 \<longrightarrow> main (pre @ Opt_R y # post) =
            Exit 1 (''error: the maximum level of refinement must be nonnegative'' @ endl)) \<and>
         (t \<le> 0 \<longrightarrow> main (pre @ Opt_T t # post) =
            Exit 1 (''error: expiry time must be positive'' @ endl)) \<and>
         main (pre @ Opt_unknown # post) = Exit 1 (endl @ help_text)"
proof -
  have skip: "\<And>rest :: 'a opt list. \<exists>l'. getopt_loop initial (pre @ rest) = getopt_loop l' rest"
    using assms by (rule getopt_loop_accepted)
  have "main (pre @ Opt_h # post) = Exit 0 help_text"
    using skip [of "Opt_h # post"] by (auto simp: main_def)
  moreover have "x <s 0 \<longrightarrow> main (pre @ Opt_e x # post) =
      Exit 1 (''error: the number of premature exercises must be nonnegative'' @ endl)"
    using skip [of "Opt_e x # post"] by (auto simp: main_def)
  moreover have "n \<le>s 0 \<longrightarrow> main (pre @ Opt_N n # post) =
      Exit 1 (''error: the number of steps must be positive'' @ endl)"
    using skip [of "Opt_N n # post"] by (auto simp: main_def)
  moreover have "y <s 0 \<longrightarrow> main (pre @ Opt_R y # post) =
      Exit 1 (''error: the maximum level of refinement must be nonnegative'' @ endl)"
    using skip [of "Opt_R y # post"] by (auto simp: main_def)
  moreover have "t \<le> 0 \<longrightarrow> main (pre @ Opt_T t # post) =
      Exit 1 (''error: expiry time must be positive'' @ endl)"
    using skip [of "Opt_T t # post"] by (auto simp: main_def)
  moreover have "main (pre @ Opt_unknown # post) = Exit 1 (endl @ help_text)"
    using skip [of "Opt_unknown # post"] by (auto simp: main_def)
  ultimately show ?thesis
    by blast
qed

theorem first_rejected_option_decides_witness:
  "list_all accepted [Opt_K 90, Opt_e 4 :: real opt] \<and>
   main ([Opt_K 90, Opt_e 4] @ Opt_h # [Opt_N 0 :: real opt]) = Exit 0 help_text \<and>
   (- 1 :: c_int) <s 0 \<and>
   main ([Opt_K 90, Opt_e 4] @ Opt_e (- 1) # [Opt_h :: real opt]) =
     Exit 1 (''error: the number of premature exercises must be nonnegative'' @ endl) \<and>
   (0 :: c_int) \<le>s 0 \<and>
   main ([Opt_K 90, Opt_e 4] @ Opt_N 0 # [Opt_h :: real opt]) =
     Exit 1 (''error: the number of steps must be positive'' @ endl) \<and>
   main ([Opt_K 90, Opt_e 4] @ Opt_R (- 1) # [Opt_h :: real opt]) =
     Exit 1 (''error: the maximum level of refinement must be nonnegative'' @ endl) \<and>
   (0 :: real) \<le> 0 \<and>
   main ([Opt_K 90, Opt_e 4] @ Opt_T 0 # [Opt_h :: real opt]) =
     Exit 1 (''error: expiry time must be positive'' @ endl)"
proof -
  have acc: "list_all accepted [Opt_K 90, Opt_e 4 :: real opt]"
    by (simp add: word_sless_alt)
  have neg: "(- 1 :: c_int) <s 0" and zero: "(0 :: c_int) \<le>s 0"
    by (simp_all add: word_sless_alt word_sle_eq)
  note d = first_rejected_option_decides [OF acc]
  from d [where post = "[Opt_N 0]"] have "main ([Opt_K 90, Opt_e 4] @ Opt_h # [Opt_N 0 :: real opt]) = Exit 0 help_text"
    by blast
  moreover from d [where post = "[Opt_h]" and x = "- 1" and n = 0 and y = "- 1" and t = 0] neg zero
  have "main ([Opt_K 90, Opt_e 4] @ Opt_e (- 1) # [Opt_h :: real opt]) =
       Exit 1 (''error: the number of premature exercises must be nonnegative'' @ endl)"
    "main ([Opt_K 90, Opt_e 4] @ Opt_N 0 # [Opt_h :: real opt]) =
       Exit 1 (''error: the number of steps must be positive'' @ endl)"
    "main ([Opt_K 90, Opt_e 4] @ Opt_R (- 1) # [Opt_h :: real opt]) =
       Exit 1 (''error: the maximum level of refinement must be nonnegative'' @ endl)"
    "main ([Opt_K 90, Opt_e 4] @ Opt_T 0 # [Opt_h :: real opt]) =
       Exit 1 (''error: expiry time must be positive'' @ endl)"
    by simp_all
  ultimately show ?thesis
    using acc neg zero by simp
qed

text \<open>
  The claim as stated fails: \<^verbatim>\<open>-h -e -1\<close> passes a negative value to \<^verbatim>\<open>-e\<close> and the
  program returns 0 without an error message; \<^verbatim>\<open>-e -1 -h\<close> passes \<^verbatim>\<open>-h\<close> and the
  program returns 1 without the usage text.
\<close>

theorem later_option_not_examined:
  "(- 1 :: c_int) <s 0 \<and>
   main [Opt_h, Opt_e (- 1) :: real opt] = Exit 0 help_text \<and>
   main [Opt_e (- 1), Opt_h :: real opt] =
     Exit 1 (''error: the number of premature exercises must be nonnegative'' @ endl)"
  by (simp add: main_def word_sless_alt)


subsection \<open>The exercise events\<close>







end
